theory Spec2Isabelle
  imports Main "HOL-Library.Multiset" "HOL-Library.Char_ord" "HOL-Library.List_Lexorder"
begin

section \<open>Python strings\<close>

text \<open>
  A Python \<open>str\<close> is modelled as a \<open>string\<close> (a list of \<open>char\<close>); a single letter such as
  the center letter is a \<open>str\<close> of length one, as in the source. A \<open>char\<close> stands for the
  code point of the same number, so the strings of the model are the Python strings
  whose code points are below 256. On these, \<open>str.lower\<close> adds 32 to the code points of
  \<open>A\<close> to \<open>Z\<close> and of \<open>0xC0\<close> to \<open>0xDE\<close> (except the multiplication sign \<open>0xD7\<close>) and leaves
  the others alone, and \<open>str.isalpha\<close> holds of a non-empty string of letters: \<open>A\<close> to \<open>Z\<close>,
  \<open>a\<close> to \<open>z\<close>, \<open>0xAA\<close>, \<open>0xB5\<close>, \<open>0xBA\<close> and \<open>0xC0\<close> to \<open>0xFF\<close> except the multiplication and
  division signs \<open>0xD7\<close> and \<open>0xF7\<close>. \<open>str.casefold\<close> is modelled as \<open>str.lower\<close>, from which it
  differs at \<open>0xB5\<close> and \<open>0xDF\<close> only, and \<open>str.upper\<close> on the ASCII code points, where it
  subtracts 32 from \<open>a\<close> to \<open>z\<close> (beyond ASCII some results of the two have a code point
  above 255 or are two characters long); the solver applies them to the words it
  returns, and the statements about them are about words of the letters \<open>a\<close> to \<open>z\<close>.
  Strings are compared as Python compares them, lexicographically by code point.
\<close>

definition ascii_lowercase :: string where
  "ascii_lowercase = ''abcdefghijklmnopqrstuvwxyz''"

definition upper_char :: "char \<Rightarrow> char" where
  "upper_char c =
     (if CHR ''a'' \<le> c \<and> c \<le> CHR ''z'' then char_of (of_char c - (32::nat)) else c)"

definition lower_char :: "char \<Rightarrow> char" where
  "lower_char c =
     (if (CHR ''A'' \<le> c \<and> c \<le> CHR ''Z'') \<or> (CHR 0xC0 \<le> c \<and> c \<le> CHR 0xDE \<and> c \<noteq> CHR 0xD7)
      then char_of (of_char c + (32::nat)) else c)"

definition isalpha_char :: "char \<Rightarrow> bool" where
  "isalpha_char c =
     ((CHR ''A'' \<le> c \<and> c \<le> CHR ''Z'') \<or> (CHR ''a'' \<le> c \<and> c \<le> CHR ''z'') \<or>
      c = CHR 0xAA \<or> c = CHR 0xB5 \<or> c = CHR 0xBA \<or>
      (CHR 0xC0 \<le> c \<and> c \<noteq> CHR 0xD7 \<and> c \<noteq> CHR 0xF7))"

definition py_upper :: "string \<Rightarrow> string" where
  "py_upper s = map upper_char s"

definition py_lower :: "string \<Rightarrow> string" where
  "py_lower s = map lower_char s"

definition py_casefold :: "string \<Rightarrow> string" where
  "py_casefold s = map lower_char s"

definition py_isalpha :: "string \<Rightarrow> bool" where
  "py_isalpha s = (s \<noteq> [] \<and> list_all isalpha_char s)"

text \<open>\<open>sub in s\<close> for two strings: \<open>sub\<close> occurs in \<open>s\<close> as a contiguous substring.\<close>

fun starts_with :: "string \<Rightarrow> string \<Rightarrow> bool" where
  "starts_with s [] = True"
| "starts_with [] (c # sub) = False"
| "starts_with (d # s) (c # sub) = (d = c \<and> starts_with s sub)"

fun py_in_str :: "string \<Rightarrow> string \<Rightarrow> bool" where
  "py_in_str sub [] = (sub = [])"
| "py_in_str sub (d # s) = (starts_with (d # s) sub \<or> py_in_str sub s)"

section \<open>The solver\<close>

text \<open>\<open>ALPHABET = set(string.ascii_lowercase)\<close>: the 26 one-character strings.\<close>

definition ALPHABET :: "string set" where
  "ALPHABET = (\<lambda>c. [c]) ` set ascii_lowercase"

text \<open>
  The \<open>for\<close> loop of \<open>solver\<close>. The state is the pair of the set \<open>words\<close> and the counter
  \<open>num_pan\<close>. The set is kept as a list without repetitions (\<open>set.add\<close> is
  \<open>List.insert\<close>).
\<close>

fun solver_loop ::
  "string set \<Rightarrow> string list \<Rightarrow> string \<Rightarrow> string list \<Rightarrow> string list \<times> int \<Rightarrow> string list \<times> int"
where
  "solver_loop unacceptable acceptable center [] (words, num_pan) = (words, num_pan)"
| "solver_loop unacceptable acceptable center (word # rest) (words, num_pan) =
     (if py_in_str center word \<and> \<not> list_ex (\<lambda>el. [el] \<in> unacceptable) word
      then (if list_all (\<lambda>el. py_in_str el word) acceptable
            then solver_loop unacceptable acceptable center rest
                   (List.insert (py_upper word) words, num_pan + 1)
            else solver_loop unacceptable acceptable center rest
                   (List.insert word words, num_pan))
      else solver_loop unacceptable acceptable center rest (words, num_pan))"

text \<open>
  \<open>sorted(words, key=str.casefold)\<close> is a stable sort of the elements of the set in the
  order the set yields them. Python does not fix that order (it follows the hashes of
  the strings, which change from one process to the next), so the model takes it as the
  parameter \<open>iter\<close>: the list of the set's elements in the order of iteration.
  \<open>iter_order\<close> says that \<open>iter\<close> only reorders.
\<close>

definition iter_order :: "(string list \<Rightarrow> string list) \<Rightarrow> bool" where
  "iter_order iter = (\<forall>xs. mset (iter xs) = mset xs)"

definition solver ::
  "(string list \<Rightarrow> string list) \<Rightarrow> string list \<Rightarrow> string list \<Rightarrow> string \<Rightarrow> string list \<times> int"
where
  "solver iter word_list acceptable center =
     (let unacceptable = ALPHABET - set acceptable;
          (words, num_pan) = solver_loop unacceptable acceptable center word_list ([], 0)
      in (sort_key py_casefold (iter words), num_pan))"

section \<open>Collecting the letters\<close>

text \<open>
  Exceptions are values: \<open>sys.exit(n)\<close> raises \<open>SystemExit n\<close>, the end of the user's input
  raises \<open>EOFError\<close>, and \<open>check_letter\<close> raises \<open>ArgumentTypeError\<close>. A function that
  calls \<open>print\<close> returns the lines it printed together with its result. What a run shows
  on standard output is a list of events: \<open>Printed l\<close> for a line \<open>l\<close> written by \<open>print\<close>,
  and \<open>Prompted m\<close> for an InquirerPy prompt with the message \<open>m\<close>, which stands for all
  that the prompt draws while it is open (its message, the text being typed, the invalid
  message after a rejected submission, the answer).
\<close>

datatype py_exc = SystemExit int | EOFError | ArgumentTypeError string

datatype out_event = Printed string | Prompted string

definition validate_char :: "string \<Rightarrow> bool" where
  "validate_char char = (py_isalpha char \<and> length char = 1)"

definition check_duplicate :: "string \<Rightarrow> string list \<Rightarrow> bool" where
  "check_duplicate char letters = (validate_char char \<and> char \<notin> set letters)"

text \<open>
  An input prompt of InquirerPy with a \<open>validate\<close> function: the prompt stays open until
  the user submits a text that \<open>validate\<close> accepts, and the answer is that text as typed
  (the \<open>transformer\<close> only changes what is displayed). The user's submissions are the list
  \<open>inputs\<close>; the prompt returns the answer and the submissions not yet read.
\<close>

fun prompt :: "(string \<Rightarrow> bool) \<Rightarrow> string list \<Rightarrow> py_exc + string \<times> string list" where
  "prompt validate [] = Inl EOFError"
| "prompt validate (text # rest) =
     (if validate text then Inr (text, rest) else prompt validate rest)"

text \<open>
  \<open>get_center\<close> and \<open>get_letters\<close> return the prompts they showed together with their
  result. \<open>num2words(n, to="ordinal")\<close> is given for the numbers below seven, the only
  ones the loop of \<open>get_letters\<close> asks for.
\<close>

definition get_center ::
  "string list option \<Rightarrow> string list \<Rightarrow> out_event list \<times> (py_exc + string \<times> string list)" where
  "get_center letters inputs =
     (let validate = (case letters of None \<Rightarrow> validate_char
                      | Some ls \<Rightarrow> (\<lambda>result. check_duplicate result ls))
      in ([Prompted ''Please enter the center letter:''],
          case prompt validate inputs of
            Inl e \<Rightarrow> Inl e
          | Inr (answer, rest) \<Rightarrow> Inr (py_lower answer, rest)))"

definition num2words_ordinal :: "nat \<Rightarrow> string" where
  "num2words_ordinal n =
     (if n < 7
      then [''zeroth'', ''first'', ''second'', ''third'', ''fourth'', ''fifth'', ''sixth''] ! n
      else [])"

function get_letters_loop ::
  "string list \<Rightarrow> string list \<Rightarrow> out_event list \<times> (py_exc + string list \<times> string list)" where
  "get_letters_loop letters inputs =
     (if length letters < 7
      then (let nth = num2words_ordinal (length letters);
                shown = Prompted (''Please enter the '' @ nth @ '' outer letter:'')
            in case prompt (\<lambda>result. check_duplicate result letters) inputs of
                 Inl e \<Rightarrow> ([shown], Inl e)
               | Inr (answer, rest) \<Rightarrow>
                   (case get_letters_loop (letters @ [py_lower answer]) rest of
                      (out, r) \<Rightarrow> (shown # out, r)))
      else ([], Inr (letters, inputs)))"
  by pat_completeness auto
termination
  by (relation "measure (\<lambda>(letters, inputs). 7 - length letters)") auto

declare get_letters_loop.simps [simp del]

definition get_letters ::
  "string \<Rightarrow> string list option \<Rightarrow> string list \<Rightarrow>
   out_event list \<times> (py_exc + string list \<times> string list)" where
  "get_letters center old_letters inputs =
     get_letters_loop (case old_letters of None \<Rightarrow> [center] | Some old \<Rightarrow> [center] @ old) inputs"

section \<open>The word list\<close>

text \<open>
  \<open>str.splitlines\<close>: a line ends at a line feed, a carriage return (with the line feed
  that follows it, if any), a vertical tab, a form feed, one of the separators \<open>0x1C\<close>,
  \<open>0x1D\<close>, \<open>0x1E\<close> or the next-line character \<open>0x85\<close> (the two remaining line boundaries
  of Python have code points above 255); no empty last line is produced after a final
  line break.
\<close>

definition is_linebreak :: "char \<Rightarrow> bool" where
  "is_linebreak c =
     (c \<in> {CHR 0x0A, CHR 0x0D, CHR 0x0B, CHR 0x0C, CHR 0x1C, CHR 0x1D, CHR 0x1E, CHR 0x85})"

function splitlines_from :: "string \<Rightarrow> string \<Rightarrow> string list" where
  "splitlines_from line [] = (if line = [] then [] else [line])"
| "splitlines_from line (c # s) =
     (if is_linebreak c
      then line # splitlines_from []
             (if c = CHR 0x0D \<and> s \<noteq> [] \<and> hd s = CHR 0x0A then tl s else s)
      else splitlines_from (line @ [c]) s)"
  by pat_completeness auto
termination
  by (relation "measure (\<lambda>(line, s). length s)") auto

definition splitlines :: "string \<Rightarrow> string list" where
  "splitlines s = splitlines_from [] s"

definition FILE_PATH :: string where
  "FILE_PATH = ''nyt.txt''"

text \<open>
  The file system is the argument \<open>file\<close>: \<open>None\<close> when \<open>FILE_PATH\<close> does not exist,
  otherwise the text that \<open>file.read()\<close> returns.
\<close>

definition get_words :: "string option \<Rightarrow> string list \<times> (py_exc + string list)" where
  "get_words file =
     (case file of
        Some text \<Rightarrow> ([], Inr (map py_lower (drop 2 (splitlines text))))
      | None \<Rightarrow> ([''Error: File '' @ FILE_PATH @ '' not found.''], Inl (SystemExit 1)))"

section \<open>Printing the results\<close>

text \<open>\<open>str(n)\<close> for an integer: its decimal digits, with a minus sign when negative.\<close>

function str_nat :: "nat \<Rightarrow> string" where
  "str_nat n =
     (if n < 10 then [''0123456789'' ! n]
      else str_nat (n div 10) @ [''0123456789'' ! (n mod 10)])"
  by pat_completeness auto
termination
  by (relation "measure (\<lambda>n. n)") auto

definition str_int :: "int \<Rightarrow> string" where
  "str_int i = (if i < 0 then CHR ''-'' # str_nat (nat (- i)) else str_nat (nat i))"

definition print_results :: "string list \<Rightarrow> int \<Rightarrow> string list" where
  "print_results words num_pan =
     (let num_words = int (length words)
      in if num_words = 0 then [''No words were found.'']
         else
           (let pan_str =
                  (if num_pan > 0
                   then '', including '' @ str_int num_pan @ '' pangram'' @
                        (if num_pan \<noteq> 1 then ''s'' else []) @ '',''
                   else []);
                verb = (if num_words \<noteq> 1 then ''were'' else ''was'');
                ess = (if num_words \<noteq> 1 then ''s'' else [])
            in (str_int num_words @ '' word'' @ ess @ pan_str @ '' '' @ verb @ '' found:'') #
               map (\<lambda>word. CHR 0x09 # word) words))"

section \<open>The command line\<close>

definition check_letter :: "string \<Rightarrow> py_exc + string" where
  "check_letter value =
     (if \<not> validate_char value
      then Inl (ArgumentTypeError ''input must only contain single letters'')
      else Inr (py_lower value))"

definition validate_contain ::
  "string option \<Rightarrow> string list option \<Rightarrow> string list \<times> (py_exc + unit)" where
  "validate_contain center letters =
     (case (center, letters) of
        (Some c, Some ls) \<Rightarrow>
          (if c \<noteq> [] \<and> ls \<noteq> [] \<and> c \<in> set ls
           then ([''Error: Center letter cannot be contained in outer letters.''],
                 Inl (SystemExit 1))
           else ([], Inr ()))
      | _ \<Rightarrow> ([], Inr ()))"

text \<open>
  \<open>ValidatedLetters.__call__\<close>; \<open>"/".join(self.option_strings)\<close> is \<open>-l/--letters\<close>. The
  result is the value stored in the namespace.
\<close>

definition ValidatedLetters_call :: "string list \<Rightarrow> string list \<times> (py_exc + string list)" where
  "ValidatedLetters_call values =
     (let input_len = (if values \<noteq> [] then int (length values) else 0);
          input_set_len = (if values \<noteq> [] then int (length (remdups values)) else 0)
      in if \<not> (1 \<le> input_len \<and> input_len \<le> 6)
         then ([''Error: argument -l/--letters: Outer letters can have between one and six entries.''],
               Inl (SystemExit 1))
         else if input_set_len \<noteq> input_len
         then ([''Error: argument -l/--letters: Outer letters cannot contain duplicates''],
               Inl (SystemExit 1))
         else ([], Inr values))"

text \<open>
  \<open>parser.parse_args()\<close> for the parser that \<open>get_args\<close> builds. The command line is the
  list of the options given, in order: \<open>Center v\<close> for \<open>-c v\<close> and \<open>Letters vs\<close> for \<open>-l\<close>
  followed by the arguments \<open>vs\<close> (a command line with \<open>-h\<close>, with an unknown option or
  with \<open>-c\<close> without its argument is outside the model). For each option argparse first
  converts every argument
  with the option's \<open>type\<close> function and then runs the option's action. When the \<open>type\<close>
  function raises \<open>ArgumentTypeError\<close>, or when \<open>-l\<close> (\<open>nargs="+"\<close>) has no argument,
  argparse calls \<open>parser.error\<close>, which writes the usage and the message to standard
  error and exits with status 2.
\<close>

datatype cli_option = Center string | Letters "string list"

record namespace =
  ns_center :: "string option"
  ns_letters :: "string list option"

fun convert_all :: "string list \<Rightarrow> py_exc + string list" where
  "convert_all [] = Inr []"
| "convert_all (v # vs) =
     (case check_letter v of
        Inl e \<Rightarrow> Inl e
      | Inr x \<Rightarrow> (case convert_all vs of Inl e \<Rightarrow> Inl e | Inr xs \<Rightarrow> Inr (x # xs)))"

fun parse_args :: "cli_option list \<Rightarrow> namespace \<Rightarrow> string list \<times> (py_exc + namespace)" where
  "parse_args [] ns = ([], Inr ns)"
| "parse_args (Center v # rest) ns =
     (case check_letter v of
        Inl e \<Rightarrow> ([], Inl (SystemExit 2))
      | Inr c \<Rightarrow> parse_args rest (ns\<lparr>ns_center := Some c\<rparr>))"
| "parse_args (Letters vs # rest) ns =
     (if vs = [] then ([], Inl (SystemExit 2))
      else (case convert_all vs of
              Inl e \<Rightarrow> ([], Inl (SystemExit 2))
            | Inr values \<Rightarrow>
                (case ValidatedLetters_call values of
                   (out, Inl e) \<Rightarrow> (out, Inl e)
                 | (out, Inr stored) \<Rightarrow> parse_args rest (ns\<lparr>ns_letters := Some stored\<rparr>))))"

definition get_args ::
  "cli_option list \<Rightarrow> string list \<times> (py_exc + string option \<times> string list option)" where
  "get_args argv =
     (case parse_args argv \<lparr>ns_center = None, ns_letters = None\<rparr> of
        (out, Inl e) \<Rightarrow> (out, Inl e)
      | (out, Inr args) \<Rightarrow>
          (case validate_contain (ns_center args) (ns_letters args) of
             (out', Inl e) \<Rightarrow> (out @ out', Inl e)
           | (out', Inr u) \<Rightarrow> (out @ out', Inr (ns_center args, ns_letters args))))"

section \<open>The program\<close>

definition main ::
  "(string list \<Rightarrow> string list) \<Rightarrow> cli_option list \<Rightarrow> string list \<Rightarrow> string option \<Rightarrow>
   out_event list \<times> (py_exc + unit)" where
  "main iter argv inputs file =
     (case get_args argv of
        (out, Inl e) \<Rightarrow> (map Printed out, Inl e)
      | (out, Inr (center, letters)) \<Rightarrow>
          (case (if center = None \<or> center = Some [] then get_center letters inputs
                 else ([], Inr (the center, inputs))) of
             (shown, Inl e) \<Rightarrow> (map Printed out @ shown, Inl e)
           | (shown, Inr (center, inputs)) \<Rightarrow>
               (case get_letters center letters inputs of
                  (shown', Inl e) \<Rightarrow> (map Printed out @ shown @ shown', Inl e)
                | (shown', Inr (acceptable, inputs)) \<Rightarrow>
                    (case get_words file of
                       (out', Inl e) \<Rightarrow>
                         (map Printed out @ shown @ shown' @ map Printed out', Inl e)
                     | (out', Inr word_list) \<Rightarrow>
                         (case solver iter word_list acceptable center of
                            (words, num_pan) \<Rightarrow>
                              (map Printed out @ shown @ shown' @ map Printed out' @
                               map Printed (print_results words num_pan), Inr ()))))))"

text \<open>
  The \<open>__main__\<close> block: what the run shows on standard output and the exit status of
  the process. \<open>EOFError\<close> is caught and reported; \<open>SystemExit n\<close> ends the process with
  status \<open>n\<close>; any other exception would end it with a traceback and status 1.
\<close>

definition program ::
  "(string list \<Rightarrow> string list) \<Rightarrow> cli_option list \<Rightarrow> string list \<Rightarrow> string option \<Rightarrow>
   out_event list \<times> int" where
  "program iter argv inputs file =
     (case main iter argv inputs file of
        (out, Inr u) \<Rightarrow> (out, 0)
      | (out, Inl EOFError) \<Rightarrow> (out @ [Printed ''Operation canceled by user.''], 1)
      | (out, Inl (SystemExit n)) \<Rightarrow> (out, n)
      | (out, Inl (ArgumentTypeError m)) \<Rightarrow> (out, 1))"

section \<open>Notions used in the statements\<close>

text \<open>
  A word of the word list is a string of lowercase ASCII letters. A letter configuration
  is well formed when the acceptable letters are two to seven distinct one-letter
  lowercase strings and the center letter is one of them.
\<close>

definition lowercase_word :: "string \<Rightarrow> bool" where
  "lowercase_word w = list_all (\<lambda>ch. ch \<in> set ascii_lowercase) w"

definition well_formed :: "string list \<Rightarrow> string \<Rightarrow> bool" where
  "well_formed acceptable center =
     (list_all (\<lambda>el. length el = 1 \<and> lowercase_word el) acceptable \<and> distinct acceptable \<and>
      2 \<le> length acceptable \<and> length acceptable \<le> 7 \<and> center \<in> set acceptable)"

definition letters_of :: "string list \<Rightarrow> char set" where
  "letters_of acceptable = set (concat acceptable)"

text \<open>
  The words that the specification asks for: the words of the list that contain the
  center letter and whose every character is an acceptable letter.
\<close>

definition spec_matches :: "string list \<Rightarrow> string list \<Rightarrow> string \<Rightarrow> string list" where
  "spec_matches word_list acceptable center =
     filter (\<lambda>w. list_ex (\<lambda>ch. [ch] = center) w \<and> list_all (\<lambda>ch. [ch] \<in> set acceptable) w)
       word_list"

text \<open>
  The two tests of the loop body of \<open>solver\<close>, and the entry that the loop adds to
  \<open>words\<close> for a word that passes the first.
\<close>

definition matched :: "string set \<Rightarrow> string \<Rightarrow> string \<Rightarrow> bool" where
  "matched unacceptable center word =
     (py_in_str center word \<and> \<not> list_ex (\<lambda>el. [el] \<in> unacceptable) word)"

definition pangram :: "string list \<Rightarrow> string \<Rightarrow> bool" where
  "pangram acceptable word = list_all (\<lambda>el. py_in_str el word) acceptable"

definition entry :: "string list \<Rightarrow> string \<Rightarrow> string" where
  "entry acceptable word = (if pangram acceptable word then py_upper word else word)"

text \<open>The messages that the program prints before it gives up.\<close>

definition count_error :: string where
  "count_error =
     ''Error: argument -l/--letters: Outer letters can have between one and six entries.''"

definition duplicate_error :: string where
  "duplicate_error = ''Error: argument -l/--letters: Outer letters cannot contain duplicates''"

definition contain_error :: string where
  "contain_error = ''Error: Center letter cannot be contained in outer letters.''"



text \<open>
  An option that argparse itself accepts: every argument is a single letter, and \<open>-l\<close> has
  at least one argument. An \<open>-l\<close> option with too many letters or with a repeated letter
  (the letters are compared after \<open>check_letter\<close> has lowercased them).
\<close>

definition parseable :: "cli_option \<Rightarrow> bool" where
  "parseable opt =
     (case opt of Center v \<Rightarrow> validate_char v
      | Letters vs \<Rightarrow> vs \<noteq> [] \<and> list_all validate_char vs)"

definition bad_letters :: "cli_option \<Rightarrow> bool" where
  "bad_letters opt =
     (case opt of Center v \<Rightarrow> False
      | Letters vs \<Rightarrow> 6 < length vs \<or> \<not> distinct (map py_lower vs))"

section \<open>Letters and strings\<close>

lemma lowercase_range: "c \<in> set ascii_lowercase \<Longrightarrow> CHR ''a'' \<le> c \<and> c \<le> CHR ''z''"
  apply (simp only: ascii_lowercase_def list.set insert_iff empty_iff)
  apply (elim disjE)
  apply simp_all
  done

lemma of_char_upper:
  assumes "CHR ''a'' \<le> c" and "c \<le> CHR ''z''"
  shows "(of_char (upper_char c) :: nat) = of_char c - 32"
proof -
  have r: "97 \<le> (of_char c :: nat)" "(of_char c :: nat) \<le> 122"
    using assms by (simp_all add: less_eq_char_def)
  then have "(of_char c - 32 :: nat) mod 256 = of_char c - 32" by simp
  with assms show ?thesis by (simp add: upper_char_def)
qed

lemma lower_upper_char:
  assumes "CHR ''a'' \<le> c" and "c \<le> CHR ''z''"
  shows "lower_char (upper_char c) = c"
proof -
  have r: "97 \<le> (of_char c :: nat)" "(of_char c :: nat) \<le> 122"
    using assms by (simp_all add: less_eq_char_def)
  have u: "(of_char (upper_char c) :: nat) = of_char c - 32"
    using assms by (rule of_char_upper)
  have "65 \<le> (of_char c :: nat) - 32 \<and> (of_char c :: nat) - 32 \<le> 90"
    using r by arith
  then have "CHR ''A'' \<le> upper_char c \<and> upper_char c \<le> CHR ''Z''"
    by (simp add: less_eq_char_def u)
  then have "lower_char (upper_char c) = char_of (of_char (upper_char c) + (32::nat))"
    by (simp add: lower_char_def)
  also have "\<dots> = char_of (of_char c :: nat)" using r by (simp add: u)
  finally show ?thesis by simp
qed

lemma lower_char_id: "CHR ''a'' \<le> c \<Longrightarrow> c \<le> CHR ''z'' \<Longrightarrow> lower_char c = c"
  by (simp add: lower_char_def less_eq_char_def)

lemma upper_char_neq:
  assumes "CHR ''a'' \<le> c" and "c \<le> CHR ''z''"
  shows "upper_char c \<noteq> c"
proof
  assume "upper_char c = c"
  then have "(of_char (upper_char c) :: nat) = of_char c" by simp
  moreover have "97 \<le> (of_char c :: nat)" using assms by (simp add: less_eq_char_def)
  ultimately show False using of_char_upper [OF assms] by simp
qed

lemma py_lower_upper: "lowercase_word w \<Longrightarrow> py_lower (py_upper w) = w"
  by (induction w)
     (simp_all add: lowercase_word_def py_lower_def py_upper_def lower_upper_char lowercase_range)

lemma py_lower_id: "lowercase_word w \<Longrightarrow> py_lower w = w"
  by (induction w) (simp_all add: lowercase_word_def py_lower_def lower_char_id lowercase_range)

lemma py_upper_neq: "lowercase_word w \<Longrightarrow> w \<noteq> [] \<Longrightarrow> py_upper w \<noteq> w"
  by (cases w) (simp_all add: lowercase_word_def py_upper_def upper_char_neq lowercase_range)

lemma py_casefold_lower: "py_casefold s = py_lower s"
  by (simp add: py_casefold_def py_lower_def)

lemma starts_with_single: "starts_with s [c] = (s \<noteq> [] \<and> hd s = c)"
  by (cases s) auto

lemma py_in_str_single: "py_in_str [c] s = (c \<in> set s)"
  by (induction s) (auto simp: starts_with_single)

section \<open>The loop of the solver\<close>

lemma solver_loop_step:
  "solver_loop U A c (w # rest) (ws, n) =
     (if matched U c w
      then solver_loop U A c rest (List.insert (entry A w) ws, if pangram A w then n + 1 else n)
      else solver_loop U A c rest (ws, n))"
  by (simp add: matched_def pangram_def entry_def)

lemma solver_loop_set:
  "set (fst (solver_loop U A c wl (ws, n))) = set ws \<union> entry A ` {w \<in> set wl. matched U c w}"
proof (induction wl arbitrary: ws n)
  case Nil
  show ?case by simp
next
  case (Cons w rest)
  show ?case unfolding solver_loop_step using Cons.IH by auto
qed

lemma solver_loop_distinct:
  "distinct ws \<Longrightarrow> distinct (fst (solver_loop U A c wl (ws, n)))"
proof (induction wl arbitrary: ws n)
  case Nil
  then show ?case by simp
next
  case (Cons w rest)
  show ?case unfolding solver_loop_step using Cons.IH Cons.prems by simp
qed

lemma solver_loop_count:
  "snd (solver_loop U A c wl (ws, n)) =
     n + int (length (filter (\<lambda>w. matched U c w \<and> pangram A w) wl))"
proof (induction wl arbitrary: ws n)
  case Nil
  show ?case by simp
next
  case (Cons w rest)
  show ?case unfolding solver_loop_step using Cons.IH by simp
qed

lemma iter_order_set:
  assumes "iter_order it"
  shows "set (it xs) = set xs"
proof -
  from assms have "mset (it xs) = mset xs" by (simp add: iter_order_def)
  then show ?thesis by (rule mset_eq_setD)
qed

lemma iter_order_distinct:
  assumes "iter_order it"
  shows "distinct (it xs) = distinct xs"
proof -
  from assms have "mset (it xs) = mset xs" by (simp add: iter_order_def)
  then show ?thesis by (rule mset_eq_imp_distinct_iff)
qed

lemma solver_fst:
  "fst (solver it wl A c) =
     sort_key py_casefold (it (fst (solver_loop (ALPHABET - set A) A c wl ([], 0))))"
  by (simp add: solver_def split: prod.split)

lemma solver_snd:
  "snd (solver it wl A c) = snd (solver_loop (ALPHABET - set A) A c wl ([], 0))"
  by (simp add: solver_def split: prod.split)

lemma solver_set:
  "iter_order it \<Longrightarrow>
   set (fst (solver it wl A c)) = entry A ` {w \<in> set wl. matched (ALPHABET - set A) c w}"
  by (simp add: solver_fst iter_order_set solver_loop_set)

lemma solver_distinct: "iter_order it \<Longrightarrow> distinct (fst (solver it wl A c))"
  by (simp add: solver_fst iter_order_distinct solver_loop_distinct)

lemma solver_count:
  "snd (solver it wl A c) =
     int (length (filter (\<lambda>w. matched (ALPHABET - set A) c w \<and> pangram A w) wl))"
  by (simp add: solver_snd solver_loop_count)

lemma solver_entries:
  assumes "iter_order it" and "e \<in> set (fst (solver it wl A c))"
  obtains w where "w \<in> set wl" and "matched (ALPHABET - set A) c w" and "e = entry A w"
  using assms by (auto simp: solver_set)

section \<open>What the tests of the loop mean on lowercase words\<close>

lemma lowercase_in_ALPHABET: "lowercase_word w \<Longrightarrow> ch \<in> set w \<Longrightarrow> [ch] \<in> ALPHABET"
  by (auto simp: lowercase_word_def ALPHABET_def list_all_iff)

lemma matched_lowercase:
  assumes "lowercase_word w"
  shows "matched (ALPHABET - set A) [ch] w = (ch \<in> set w \<and> (\<forall>el\<in>set w. [el] \<in> set A))"
  using lowercase_in_ALPHABET [OF assms]
  by (auto simp: matched_def py_in_str_single list_ex_iff)

lemma matched_spec:
  assumes "lowercase_word w"
  shows "matched (ALPHABET - set A) [ch] w =
         (list_ex (\<lambda>x. [x] = [ch]) w \<and> list_all (\<lambda>x. [x] \<in> set A) w)"
  by (auto simp: matched_lowercase [OF assms] list_ex_iff list_all_iff)

lemma single_letters:
  assumes "list_all (\<lambda>el. length el = 1 \<and> lowercase_word el) A"
  shows "([x] \<in> set A) = (x \<in> letters_of A)"
proof
  assume "[x] \<in> set A"
  then show "x \<in> letters_of A" by (force simp: letters_of_def)
next
  assume "x \<in> letters_of A"
  then obtain el where el: "el \<in> set A" "x \<in> set el" by (auto simp: letters_of_def)
  with assms have "length el = 1" by (simp add: list_all_iff)
  with el(2) have "el = [x]" by (cases el) auto
  with el(1) show "[x] \<in> set A" by simp
qed

lemma pangram_letters:
  assumes "list_all (\<lambda>el. length el = 1 \<and> lowercase_word el) A"
  shows "pangram A w = (letters_of A \<subseteq> set w)"
proof -
  have "pangram A w = (\<forall>el\<in>set A. py_in_str el w)"
    by (simp add: pangram_def list_all_iff)
  also have "\<dots> = (\<forall>el\<in>set A. \<forall>x\<in>set el. x \<in> set w)"
  proof (rule ball_cong [OF refl])
    fix el assume "el \<in> set A"
    with assms have "length el = 1" by (simp add: list_all_iff)
    then obtain x where "el = [x]" by (cases el) auto
    then show "py_in_str el w = (\<forall>x\<in>set el. x \<in> set w)" by (simp add: py_in_str_single)
  qed
  also have "\<dots> = (letters_of A \<subseteq> set w)" by (auto simp: letters_of_def)
  finally show ?thesis .
qed

lemma well_formed_center:
  assumes "well_formed A c"
  obtains ch where "c = [ch]" and "ch \<in> set ascii_lowercase"
proof -
  from assms have "length c = 1 \<and> lowercase_word c"
    by (auto simp: well_formed_def list_all_iff)
  then obtain ch where "c = [ch]" "lowercase_word [ch]" by (cases c) auto
  then show ?thesis using that by (simp add: lowercase_word_def)
qed

lemma entry_lower: "lowercase_word w \<Longrightarrow> py_lower (entry A w) = w"
  by (simp add: entry_def py_lower_upper py_lower_id)

lemma entry_length: "length (entry A w) = length w"
  by (simp add: entry_def py_upper_def)

lemma solver_lower_inj:
  assumes "iter_order it" and "list_all lowercase_word wl"
  shows "inj_on py_lower (set (fst (solver it wl A c)))"
proof (rule inj_onI)
  fix e1 e2
  assume e1: "e1 \<in> set (fst (solver it wl A c))" and e2: "e2 \<in> set (fst (solver it wl A c))"
    and eq: "py_lower e1 = py_lower e2"
  from assms(1) e1 obtain w1 where w1: "w1 \<in> set wl" "e1 = entry A w1" by (rule solver_entries)
  from assms(1) e2 obtain w2 where w2: "w2 \<in> set wl" "e2 = entry A w2" by (rule solver_entries)
  from assms(2) w1(1) w2(1) have "lowercase_word w1" "lowercase_word w2"
    by (simp_all add: list_all_iff)
  then have "py_lower e1 = w1" "py_lower e2 = w2" using w1(2) w2(2) by (simp_all add: entry_lower)
  with eq have "w1 = w2" by simp
  with w1(2) w2(2) show "e1 = e2" by simp
qed

lemma solver_keys_inj:
  assumes "iter_order it" and "list_all lowercase_word wl"
  shows "inj_on py_casefold (set (fst (solver it wl A c)))"
  using solver_lower_inj [OF assms] by (simp add: inj_on_def py_casefold_lower)

lemma solver_lower_set:
  assumes "iter_order it" and "list_all lowercase_word wl"
  shows "py_lower ` set (fst (solver it wl A [ch])) =
         {w \<in> set wl. matched (ALPHABET - set A) [ch] w}"
proof -
  have "py_lower (entry A w) = w" if "w \<in> set wl" for w
    using that assms(2) by (simp add: entry_lower list_all_iff)
  then show ?thesis unfolding solver_set [OF assms(1)] by force
qed

lemma solver_no_empty:
  assumes "iter_order it" and "center \<noteq> []"
  shows "[] \<notin> set (fst (solver it wl A center))"
proof
  assume "[] \<in> set (fst (solver it wl A center))"
  with assms(1) obtain w where w: "matched (ALPHABET - set A) center w" "[] = entry A w"
    by (rule solver_entries)
  from w(2) have "length w = 0" by (metis entry_length list.size(3))
  then have "w = []" by simp
  with w(1) assms(2) show False by (simp add: matched_def)
qed

section \<open>Sorting a set does not depend on the order of iteration\<close>

lemma filter_eq_single: "distinct xs \<Longrightarrow> k \<in> set xs \<Longrightarrow> filter (\<lambda>x. k = x) xs = [k]"
  by (induction xs) (auto simp: filter_empty_conv)

lemma filter_key_single:
  assumes "distinct xs" and "inj_on f (set xs)" and "k \<in> set xs"
  shows "filter (\<lambda>x. f k = f x) xs = [k]"
proof -
  have "filter (\<lambda>x. f k = f x) xs = filter (\<lambda>x. k = x) xs"
    using assms(2,3) by (intro filter_cong refl) (auto dest: inj_onD)
  then show ?thesis using assms(1,3) by (simp add: filter_eq_single)
qed

lemma sort_key_order_indep:
  assumes "mset xs = mset ys" and "distinct xs" and "inj_on f (set xs)"
  shows "sort_key f xs = sort_key f ys"
proof (rule properties_for_sort_key)
  show "mset (sort_key f ys) = mset xs" using assms(1) by simp
  show "sorted (map f (sort_key f ys))" by (rule sorted_sort_key)
  fix k assume k: "k \<in> set (sort_key f ys)"
  have sy: "set ys = set xs" using assms(1) [symmetric] by (rule mset_eq_setD)
  have dy: "distinct ys" using assms(2) mset_eq_imp_distinct_iff [OF assms(1)] by simp
  have "filter (\<lambda>x. f k = f x) (sort_key f ys) = [k]"
    using k dy assms(3) sy by (intro filter_key_single) simp_all
  moreover have "filter (\<lambda>x. f k = f x) xs = [k]"
    using k assms(2,3) sy by (intro filter_key_single) simp_all
  ultimately show "filter (\<lambda>x. f k = f x) (sort_key f ys) = filter (\<lambda>x. f k = f x) xs" by simp
qed

section \<open>The words returned by the solver\<close>

text \<open>
  C1 (amended). For every word list of lowercase words and every well-formed letter
  configuration, whatever the order in which the set is iterated: the entries returned
  by \<open>solver\<close>, with the pangram marking undone (lowercased), are exactly the words of
  the input list that contain the center letter and whose every character is an
  acceptable letter, and no two entries stand for the same word. (A pangram itself is
  returned in uppercase, so the returned entry is not a string of the input list.)
\<close>

theorem solver_matches_modulo_marking:
  assumes "iter_order it" and "list_all lowercase_word word_list"
    and "well_formed acceptable center"
  shows "py_lower ` set (fst (solver it word_list acceptable center)) =
           set (spec_matches word_list acceptable center) \<and>
         distinct (map py_lower (fst (solver it word_list acceptable center)))"
proof -
  from assms(3) obtain ch where c: "center = [ch]" by (rule well_formed_center)
  have "{w \<in> set word_list. matched (ALPHABET - set acceptable) [ch] w} =
        set (spec_matches word_list acceptable [ch])"
    using assms(2) by (auto simp: spec_matches_def matched_spec list_all_iff)
  then have "py_lower ` set (fst (solver it word_list acceptable center)) =
             set (spec_matches word_list acceptable center)"
    unfolding c by (simp add: solver_lower_set [OF assms(1,2)])
  moreover have "distinct (map py_lower (fst (solver it word_list acceptable center)))"
    by (simp add: distinct_map solver_distinct [OF assms(1)] solver_lower_inj [OF assms(1,2)])
  ultimately show ?thesis by simp
qed

text \<open>
  The theorem at a concrete input: four letters with center \<open>g\<close>, a list with a repeated
  word, a pangram (\<open>goad\<close>) and a word outside the letters, the set iterated in reverse.
\<close>

theorem solver_matches_modulo_marking_witness:
  "iter_order rev \<and>
   list_all lowercase_word [''dog'', ''goad'', ''cat'', ''doggo'', ''dog''] \<and>
   well_formed [''g'', ''o'', ''d'', ''a''] ''g'' \<and>
   py_lower ` set (fst (solver rev [''dog'', ''goad'', ''cat'', ''doggo'', ''dog'']
                         [''g'', ''o'', ''d'', ''a''] ''g'')) =
     set (spec_matches [''dog'', ''goad'', ''cat'', ''doggo'', ''dog'']
            [''g'', ''o'', ''d'', ''a''] ''g'') \<and>
   distinct (map py_lower (fst (solver rev [''dog'', ''goad'', ''cat'', ''doggo'', ''dog'']
                                  [''g'', ''o'', ''d'', ''a''] ''g'')))"
proof -
  have h1: "iter_order rev" by (simp add: iter_order_def)
  have h2: "list_all lowercase_word [''dog'', ''goad'', ''cat'', ''doggo'', ''dog'']"
    by code_simp
  have h3: "well_formed [''g'', ''o'', ''d'', ''a''] ''g''" by code_simp
  from solver_matches_modulo_marking [OF h1 h2 h3] h1 h2 h3 show ?thesis by blast
qed

text \<open>
  C1 as stated fails where the list holds a pangram: for the word list \<open>["ab"]\<close> and the
  letters \<open>a\<close> (center) and \<open>b\<close>, \<open>solver\<close> returns \<open>["AB"]\<close>, which is not a word of the
  input list, while the words asked for are \<open>["ab"]\<close>.
\<close>

theorem solver_returns_marked_pangram:
  "well_formed [''a'', ''b''] ''a'' \<and> list_all lowercase_word [''ab''] \<and>
   fst (solver id [''ab''] [''a'', ''b''] ''a'') = [''AB''] \<and>
   spec_matches [''ab''] [''a'', ''b''] ''a'' = [''ab''] \<and>
   set (fst (solver id [''ab''] [''a'', ''b''] ''a'')) \<noteq>
     set (spec_matches [''ab''] [''a'', ''b''] ''a'')"
  by code_simp

section \<open>Order and duplicates\<close>

text \<open>
  C3. For every word list of lowercase words and every well-formed letter configuration,
  whatever the order in which the set is iterated: the list returned by \<open>solver\<close> is
  strictly ascending in the order of the case-folded entries, it has no duplicates, no
  two entries agree up to case, and no word of the list is present together with its
  uppercased (pangram-marked) form.
\<close>

theorem solver_sorted_strict:
  assumes "iter_order it" and "list_all lowercase_word word_list"
    and "well_formed acceptable center"
  shows "sorted_wrt (<) (map py_casefold (fst (solver it word_list acceptable center))) \<and>
         distinct (fst (solver it word_list acceptable center)) \<and>
         distinct (map py_casefold (fst (solver it word_list acceptable center))) \<and>
         (\<forall>w\<in>set word_list. \<not> (w \<in> set (fst (solver it word_list acceptable center)) \<and>
              py_upper w \<in> set (fst (solver it word_list acceptable center))))"
proof -
  let ?res = "fst (solver it word_list acceptable center)"
  have d: "distinct ?res" by (rule solver_distinct [OF assms(1)])
  have dk: "distinct (map py_casefold ?res)"
    by (simp add: distinct_map d solver_keys_inj [OF assms(1,2)])
  have "sorted (map py_casefold ?res)"
    unfolding solver_fst by (rule sorted_sort_key)
  with dk have s: "sorted_wrt (<) (map py_casefold ?res)" by (simp add: strict_sorted_iff)
  from assms(3) obtain ch where c: "center = [ch]" by (rule well_formed_center)
  have both: "\<not> (w \<in> set ?res \<and> py_upper w \<in> set ?res)" if w: "w \<in> set word_list" for w
  proof
    assume b: "w \<in> set ?res \<and> py_upper w \<in> set ?res"
    from w assms(2) have lw: "lowercase_word w" by (simp add: list_all_iff)
    then have "py_lower w = py_lower (py_upper w)" by (simp add: py_lower_upper py_lower_id)
    with b solver_lower_inj [OF assms(1,2), of acceptable center] have "w = py_upper w"
      by (auto dest: inj_onD)
    with lw have "w = []" using py_upper_neq by fastforce
    with b solver_no_empty [OF assms(1), of center word_list acceptable] c show False by simp
  qed
  from s d dk both show ?thesis by blast
qed

theorem solver_sorted_strict_witness:
  "iter_order rev \<and>
   list_all lowercase_word [''dog'', ''goad'', ''cat'', ''doggo'', ''dog''] \<and>
   well_formed [''g'', ''o'', ''d'', ''a''] ''g'' \<and>
   sorted_wrt (<) (map py_casefold (fst (solver rev [''dog'', ''goad'', ''cat'', ''doggo'', ''dog'']
                                          [''g'', ''o'', ''d'', ''a''] ''g''))) \<and>
   distinct (fst (solver rev [''dog'', ''goad'', ''cat'', ''doggo'', ''dog'']
                    [''g'', ''o'', ''d'', ''a''] ''g'')) \<and>
   distinct (map py_casefold (fst (solver rev [''dog'', ''goad'', ''cat'', ''doggo'', ''dog'']
                                    [''g'', ''o'', ''d'', ''a''] ''g''))) \<and>
   list_all
     (\<lambda>w. \<not> (w \<in> set (fst (solver rev [''dog'', ''goad'', ''cat'', ''doggo'', ''dog'']
                               [''g'', ''o'', ''d'', ''a''] ''g'')) \<and>
              py_upper w \<in> set (fst (solver rev [''dog'', ''goad'', ''cat'', ''doggo'', ''dog'']
                                       [''g'', ''o'', ''d'', ''a''] ''g''))))
     [''dog'', ''goad'', ''cat'', ''doggo'', ''dog'']"
proof -
  have h1: "iter_order rev" by (simp add: iter_order_def)
  have h2: "list_all lowercase_word [''dog'', ''goad'', ''cat'', ''doggo'', ''dog'']"
    by code_simp
  have h3: "well_formed [''g'', ''o'', ''d'', ''a''] ''g''" by code_simp
  from solver_sorted_strict [OF h1 h2 h3] h1 h2 h3 show ?thesis
    unfolding list_all_iff by blast
qed

section \<open>Pangram marking\<close>

text \<open>
  C5. For every entry \<open>e\<close> returned by \<open>solver\<close> (lowercase word list, well-formed
  configuration, any order of iteration), with \<open>py_lower e\<close> the word of the list it
  stands for: the entry is the uppercased form of the word exactly when the set of the
  word's characters is equal to the set of acceptable letters; an entry that is not
  uppercased is the word itself, and its characters are a strict subset of the
  acceptable letters that contains the center letter.
\<close>

theorem solver_pangram_marking:
  assumes "iter_order it" and "list_all lowercase_word word_list"
    and "well_formed acceptable center"
    and "e \<in> set (fst (solver it word_list acceptable center))"
  shows "py_lower e \<in> set word_list \<and>
         (e = py_upper (py_lower e)) = (set (py_lower e) = letters_of acceptable) \<and>
         (e \<noteq> py_upper (py_lower e) \<longrightarrow>
            e = py_lower e \<and> set e \<subset> letters_of acceptable \<and> set center \<subseteq> set e)"
proof -
  from assms(3) obtain ch where c: "center = [ch]" by (rule well_formed_center)
  from assms(3) have single: "list_all (\<lambda>el. length el = 1 \<and> lowercase_word el) acceptable"
    by (simp add: well_formed_def)
  from assms(1,4) obtain w where w: "w \<in> set word_list"
    "matched (ALPHABET - set acceptable) center w" "e = entry acceptable w"
    by (rule solver_entries)
  from w(1) assms(2) have lw: "lowercase_word w" by (simp add: list_all_iff)
  have le: "py_lower e = w" using lw w(3) by (simp add: entry_lower)
  from w(2) have m: "ch \<in> set w" "\<forall>el\<in>set w. [el] \<in> set acceptable"
    unfolding c by (simp_all add: matched_lowercase [OF lw])
  then have sub: "set w \<subseteq> letters_of acceptable"
    by (auto simp: single_letters [OF single])
  have ne: "w \<noteq> []" using m(1) by auto
  have pg: "pangram acceptable w = (set w = letters_of acceptable)"
    using sub by (auto simp: pangram_letters [OF single])
  show ?thesis
  proof (cases "pangram acceptable w")
    case True
    then have "e = py_upper w" using w(3) by (simp add: entry_def)
    with True pg le w(1) show ?thesis by simp
  next
    case False
    then have ew: "e = w" using w(3) by (simp add: entry_def)
    have "e \<noteq> py_upper w" using ew py_upper_neq [OF lw ne] by simp
    with False pg le w(1) ew sub m(1) c show ?thesis by auto
  qed
qed

theorem solver_pangram_marking_witness:
  "iter_order rev \<and>
   list_all lowercase_word [''dog'', ''goad'', ''cat'', ''doggo'', ''dog''] \<and>
   well_formed [''g'', ''o'', ''d'', ''a''] ''g'' \<and>
   ''dog'' \<in> set (fst (solver rev [''dog'', ''goad'', ''cat'', ''doggo'', ''dog'']
                         [''g'', ''o'', ''d'', ''a''] ''g'')) \<and>
   py_lower ''dog'' \<in> set [''dog'', ''goad'', ''cat'', ''doggo'', ''dog''] \<and>
   (''dog'' = py_upper (py_lower ''dog'')) =
     (set (py_lower ''dog'') = letters_of [''g'', ''o'', ''d'', ''a'']) \<and>
   ''dog'' \<noteq> py_upper (py_lower ''dog'') \<and>
   ''dog'' = py_lower ''dog'' \<and> set ''dog'' \<subset> letters_of [''g'', ''o'', ''d'', ''a''] \<and>
   set ''g'' \<subseteq> set ''dog'' \<and>
   ''GOAD'' \<in> set (fst (solver rev [''dog'', ''goad'', ''cat'', ''doggo'', ''dog'']
                          [''g'', ''o'', ''d'', ''a''] ''g'')) \<and>
   py_lower ''GOAD'' \<in> set [''dog'', ''goad'', ''cat'', ''doggo'', ''dog''] \<and>
   ''GOAD'' = py_upper (py_lower ''GOAD'') \<and>
   set (py_lower ''GOAD'') = letters_of [''g'', ''o'', ''d'', ''a'']"
proof -
  have h1: "iter_order rev" by (simp add: iter_order_def)
  have h2: "list_all lowercase_word [''dog'', ''goad'', ''cat'', ''doggo'', ''dog'']"
    by code_simp
  have h3: "well_formed [''g'', ''o'', ''d'', ''a''] ''g''" by code_simp
  have h4: "''dog'' \<in> set (fst (solver rev [''dog'', ''goad'', ''cat'', ''doggo'', ''dog'']
                                  [''g'', ''o'', ''d'', ''a''] ''g''))"
    by code_simp
  have h5: "''dog'' \<noteq> py_upper (py_lower ''dog'')" by code_simp
  have h6: "''GOAD'' \<in> set (fst (solver rev [''dog'', ''goad'', ''cat'', ''doggo'', ''dog'']
                                   [''g'', ''o'', ''d'', ''a''] ''g''))"
    by code_simp
  have h7: "''GOAD'' = py_upper (py_lower ''GOAD'')" by code_simp
  from solver_pangram_marking [OF h1 h2 h3 h4] solver_pangram_marking [OF h1 h2 h3 h6]
    h1 h2 h3 h4 h5 h6 h7
  show ?thesis by blast
qed

section \<open>Word length\<close>

text \<open>
  C9. The solver has no minimum word length: for every well-formed configuration, the
  one-letter word that is the center letter is returned when it is in the word list (any
  word list, any order of iteration); the empty string is never returned.
\<close>

theorem solver_single_letter_word:
  assumes "iter_order it" and "well_formed acceptable center"
  shows "(center \<in> set word_list \<longrightarrow>
            center \<in> set (fst (solver it word_list acceptable center))) \<and>
         [] \<notin> set (fst (solver it word_list acceptable center))"
proof -
  from assms(2) obtain ch where c: "center = [ch]" "ch \<in> set ascii_lowercase"
    by (rule well_formed_center)
  from assms(2) have single: "list_all (\<lambda>el. length el = 1 \<and> lowercase_word el) acceptable"
    and d: "distinct acceptable" and l: "2 \<le> length acceptable" and ca: "center \<in> set acceptable"
    by (simp_all add: well_formed_def)
  have m: "matched (ALPHABET - set acceptable) center center"
    using ca unfolding c by (simp add: matched_def)
  have "\<not> pangram acceptable center"
  proof
    assume "pangram acceptable center"
    then have sub: "letters_of acceptable \<subseteq> {ch}"
      using c by (simp add: pangram_letters [OF single])
    have "\<forall>el\<in>set acceptable. el = [ch]"
    proof
      fix el assume el: "el \<in> set acceptable"
      with single have "length el = 1" by (simp add: list_all_iff)
      then obtain y where y: "el = [y]" by (cases el) auto
      with el have "y \<in> letters_of acceptable" by (simp add: single_letters [OF single])
      with sub y show "el = [ch]" by auto
    qed
    then have "set acceptable \<subseteq> {[ch]}" by auto
    then have "card (set acceptable) \<le> card {[ch]}" by (intro card_mono) simp_all
    with d l show False by (simp add: distinct_card)
  qed
  then have e: "entry acceptable center = center" by (simp add: entry_def)
  have "center \<in> set (fst (solver it word_list acceptable center))"
    if "center \<in> set word_list"
    using m e that unfolding solver_set [OF assms(1)] by force
  moreover have "[] \<notin> set (fst (solver it word_list acceptable center))"
    using c by (intro solver_no_empty [OF assms(1)]) simp
  ultimately show ?thesis by simp
qed

theorem solver_single_letter_word_witness:
  "iter_order rev \<and> well_formed [''g'', ''o'', ''d'', ''a''] ''g'' \<and>
   ''g'' \<in> set [[], ''dog'', ''g''] \<and>
   ''g'' \<in> set (fst (solver rev [[], ''dog'', ''g''] [''g'', ''o'', ''d'', ''a''] ''g'')) \<and>
   [] \<notin> set (fst (solver rev [[], ''dog'', ''g''] [''g'', ''o'', ''d'', ''a''] ''g''))"
proof -
  have h1: "iter_order rev" by (simp add: iter_order_def)
  have h2: "well_formed [''g'', ''o'', ''d'', ''a''] ''g''" by code_simp
  have h3: "''g'' \<in> set [[], ''dog'', ''g'']" by simp
  from solver_single_letter_word [OF h1 h2, of "[[], ''dog'', ''g'']"] h1 h2 h3
  show ?thesis by blast
qed

section \<open>Determinism\<close>

text \<open>
  C10. Two invocations of \<open>solver\<close> with the same word list (of lowercase words), the same
  acceptable letters and the same center letter return the same word list and the same
  pangram count, also when the two invocations iterate over the set \<open>words\<close> in
  different orders: the only thing that can vary between two runs does not reach the
  result.
\<close>

theorem solver_deterministic:
  assumes "iter_order it1" and "iter_order it2" and "list_all lowercase_word word_list"
  shows "solver it1 word_list acceptable center = solver it2 word_list acceptable center"
proof -
  let ?ws = "fst (solver_loop (ALPHABET - set acceptable) acceptable center word_list ([], 0))"
  have m: "mset (it1 ?ws) = mset (it2 ?ws)" using assms(1,2) by (simp add: iter_order_def)
  have d: "distinct (it1 ?ws)"
    by (simp add: iter_order_distinct [OF assms(1)] solver_loop_distinct)
  have "inj_on py_casefold (set (fst (solver it1 word_list acceptable center)))"
    by (rule solver_keys_inj [OF assms(1,3)])
  then have i: "inj_on py_casefold (set (it1 ?ws))"
    by (simp add: solver_fst)
  have "fst (solver it1 word_list acceptable center) = fst (solver it2 word_list acceptable center)"
    unfolding solver_fst by (rule sort_key_order_indep [OF m d i])
  moreover have "snd (solver it1 word_list acceptable center) = snd (solver it2 word_list acceptable center)"
    by (simp add: solver_snd)
  ultimately show ?thesis by (rule prod_eqI)
qed

theorem solver_deterministic_witness:
  "iter_order id \<and> iter_order rev \<and>
   list_all lowercase_word [''dog'', ''goad'', ''cat'', ''doggo'', ''dog''] \<and>
   solver id [''dog'', ''goad'', ''cat'', ''doggo'', ''dog''] [''g'', ''o'', ''d'', ''a''] ''g'' =
   solver rev [''dog'', ''goad'', ''cat'', ''doggo'', ''dog''] [''g'', ''o'', ''d'', ''a''] ''g''"
proof -
  have h1: "iter_order id" by (simp add: iter_order_def)
  have h2: "iter_order rev" by (simp add: iter_order_def)
  have h3: "list_all lowercase_word [''dog'', ''goad'', ''cat'', ''doggo'', ''dog'']"
    by code_simp
  from solver_deterministic [OF h1 h2 h3] h1 h2 h3 show ?thesis by blast
qed

section \<open>The pangram count\<close>

text \<open>
  The counter \<open>num_pan\<close> is incremented once for every pangram of the word list, also when
  the pangram is already in the set. On a word list without repetitions it is the number
  of uppercased entries returned.
\<close>

lemma solver_count_distinct_list:
  assumes "iter_order it" and "list_all lowercase_word wl" and "well_formed A c"
    and "distinct wl"
  shows "snd (solver it wl A c) =
         int (length (filter (\<lambda>e. e = py_upper (py_lower e)) (fst (solver it wl A c))))"
proof -
  let ?M = "{w \<in> set wl. matched (ALPHABET - set A) c w}"
  let ?P = "{w \<in> set wl. matched (ALPHABET - set A) c w \<and> pangram A w}"
  from assms(3) obtain ch where c: "c = [ch]" by (rule well_formed_center)
  have lw: "lowercase_word w" if "w \<in> set wl" for w
    using that assms(2) by (simp add: list_all_iff)
  have ne: "w \<noteq> []" if "w \<in> ?M" for w
    using that unfolding c by (auto simp: matched_def)
  have marked: "{e \<in> entry A ` ?M. e = py_upper (py_lower e)} = py_upper ` ?P"
  proof (intro set_eqI iffI)
    fix e assume "e \<in> {e \<in> entry A ` ?M. e = py_upper (py_lower e)}"
    then obtain w where w: "w \<in> ?M" "e = entry A w" and e: "e = py_upper (py_lower e)"
      by auto
    from w(1) have l: "lowercase_word w" by (simp add: lw)
    then have le: "py_lower e = w" using w(2) by (simp add: entry_lower)
    have neq: "py_upper w \<noteq> w" using l ne [OF w(1)] by (rule py_upper_neq)
    have "pangram A w"
    proof (rule ccontr)
      assume "\<not> pangram A w"
      then have "e = w" using w(2) by (simp add: entry_def)
      with e le have "w = py_upper w" by simp
      with neq show False by simp
    qed
    then show "e \<in> py_upper ` ?P" using w(1) e le by auto
  next
    fix e assume "e \<in> py_upper ` ?P"
    then obtain w where w: "w \<in> ?P" "e = py_upper w" by auto
    then have l: "lowercase_word w" by (simp add: lw)
    from w have "e = entry A w" by (simp add: entry_def)
    moreover have "py_lower e = w" using w(2) l by (simp add: py_lower_upper)
    ultimately show "e \<in> {e \<in> entry A ` ?M. e = py_upper (py_lower e)}"
      using w by auto
  qed
  have inj: "inj_on py_upper ?P"
  proof (rule inj_onI)
    fix x y assume "x \<in> ?P" "y \<in> ?P" "py_upper x = py_upper y"
    then have "py_lower (py_upper x) = py_lower (py_upper y)" "lowercase_word x" "lowercase_word y"
      by (simp_all add: lw)
    then show "x = y" by (simp add: py_lower_upper)
  qed
  have "length (filter (\<lambda>e. e = py_upper (py_lower e)) (fst (solver it wl A c))) =
        card {e \<in> set (fst (solver it wl A c)). e = py_upper (py_lower e)}"
    using solver_distinct [OF assms(1), of wl A c]
    by (simp add: distinct_card [symmetric] distinct_filter)
  also have "\<dots> = card (py_upper ` ?P)"
    unfolding solver_set [OF assms(1)] marked ..
  also have "\<dots> = card ?P" by (rule card_image [OF inj])
  also have "\<dots> = length (filter (\<lambda>w. matched (ALPHABET - set A) c w \<and> pangram A w) wl)"
    using assms(4) by (simp add: distinct_card [symmetric] distinct_filter)
  finally show ?thesis by (simp add: solver_count)
qed

text \<open>
  C2 fails on the code where the word list repeats a pangram: for the word list
  \<open>["ab", "ab"]\<close> and the letters \<open>a\<close> (center) and \<open>b\<close>, \<open>solver\<close> returns the single entry
  \<open>"AB"\<close> with the pangram count 2, and \<open>print_results\<close> then reports one word,
  including two pangrams.
\<close>

theorem solver_counts_repeated_pangram:
  "well_formed [''a'', ''b''] ''a'' \<and> list_all lowercase_word [''ab'', ''ab''] \<and>
   solver id [''ab'', ''ab''] [''a'', ''b''] ''a'' = ([''AB''], 2) \<and>
   print_results [''AB''] 2 = [''1 word, including 2 pangrams, was found:'', CHR 0x09 # ''AB'']"
  by code_simp

section \<open>The duplicate check of the prompts\<close>

text \<open>
  C4 fails on the code: \<open>check_duplicate\<close> compares the text as typed with the letters
  accepted so far, which are lowercase, so it accepts \<open>A\<close> after \<open>a\<close>; \<open>get_letters\<close> then
  stores the lowercased answer and ends with the letter \<open>a\<close> twice. On the command line
  the same two letters are compared after lowercasing and are rejected as duplicates.
\<close>

theorem check_duplicate_accepts_other_case:
  "check_duplicate ''A'' [''a''] \<and> py_lower ''A'' \<in> set [''a''] \<and>
   get_letters ''a'' None [''A'', ''b'', ''c'', ''d'', ''e'', ''f''] =
     ([Prompted ''Please enter the first outer letter:'',
       Prompted ''Please enter the second outer letter:'',
       Prompted ''Please enter the third outer letter:'',
       Prompted ''Please enter the fourth outer letter:'',
       Prompted ''Please enter the fifth outer letter:'',
       Prompted ''Please enter the sixth outer letter:''],
      Inr ([''a'', ''a'', ''b'', ''c'', ''d'', ''e'', ''f''], [])) \<and>
   get_args [Letters [''a'', ''A'']] =
     ([''Error: argument -l/--letters: Outer letters cannot contain duplicates''],
      Inl (SystemExit 1))"
  by code_simp

section \<open>The report\<close>

lemma str_int_1: "str_int 1 = ''1''"
  by code_simp

lemma print_results_length:
  "words \<noteq> [] \<Longrightarrow> length (print_results words num_pan) = Suc (length words)"
  by (simp add: print_results_def Let_def)

lemma iter_order_Nil: "iter_order it \<Longrightarrow> it [] = []"
  using iter_order_set [of it "[]"] by simp

text \<open>
  C8. \<open>print_results\<close> prints \<open>No words were found.\<close> (and nothing else) exactly when the
  list of words is empty; for an empty word list \<open>solver\<close> returns no word and the count
  0, which is reported so; for a single word and the count 0 the report is
  \<open>1 word was found:\<close>, with no pangram clause, followed by the word.
\<close>

theorem print_results_wording:
  "(print_results words num_pan = [''No words were found.'']) = (words = []) \<and>
   (iter_order it \<longrightarrow>
      solver it [] acceptable center = ([], 0) \<and>
      print_results (fst (solver it [] acceptable center)) (snd (solver it [] acceptable center)) =
        [''No words were found.'']) \<and>
   print_results [w] 0 = [''1 word was found:'', CHR 0x09 # w]"
proof (intro conjI impI)
  show "(print_results words num_pan = [''No words were found.'']) = (words = [])"
  proof (cases "words = []")
    case True
    then show ?thesis by (simp add: print_results_def)
  next
    case False
    then have "length (print_results words num_pan) \<noteq> length [''No words were found.'']"
      by (simp add: print_results_length)
    with False show ?thesis by auto
  qed
next
  assume "iter_order it"
  then show "solver it [] acceptable center = ([], 0)"
    by (simp add: solver_def iter_order_Nil)
  then show "print_results (fst (solver it [] acceptable center))
               (snd (solver it [] acceptable center)) = [''No words were found.'']"
    by (simp add: print_results_def)
next
  show "print_results [w] 0 = [''1 word was found:'', CHR 0x09 # w]"
    by (simp add: print_results_def str_int_1)
qed

theorem print_results_wording_witness:
  "(print_results [''dog''] 0 = [''No words were found.'']) = ([''dog''] = []) \<and>
   iter_order rev \<and>
   solver rev [] [''g'', ''o'', ''d''] ''g'' = ([], 0) \<and>
   print_results (fst (solver rev [] [''g'', ''o'', ''d''] ''g''))
     (snd (solver rev [] [''g'', ''o'', ''d''] ''g'')) = [''No words were found.''] \<and>
   print_results [''dog''] 0 = [''1 word was found:'', CHR 0x09 # ''dog'']"
proof -
  have h: "iter_order rev" by (simp add: iter_order_def)
  from print_results_wording [of "[''dog'']" 0 rev "[''g'', ''o'', ''d'']" "''g''" "''dog''"] h
  show ?thesis by blast
qed

section \<open>Reading the word file\<close>




section \<open>The command-line checks\<close>


lemma ValidatedLetters_call_good:
  "vs \<noteq> [] \<Longrightarrow> length vs \<le> 6 \<Longrightarrow> distinct vs \<Longrightarrow> ValidatedLetters_call vs = ([], Inr vs)"
  by (cases vs) (simp_all add: ValidatedLetters_call_def Let_def)

lemma ValidatedLetters_call_count:
  "6 < length vs \<Longrightarrow> ValidatedLetters_call vs = ([count_error], Inl (SystemExit 1))"
  by (cases vs) (simp_all add: ValidatedLetters_call_def Let_def count_error_def)

lemma ValidatedLetters_call_duplicate:
  assumes "vs \<noteq> []" and "length vs \<le> 6" and "\<not> distinct vs"
  shows "ValidatedLetters_call vs = ([duplicate_error], Inl (SystemExit 1))"
proof -
  from assms(3) have "remdups vs \<noteq> vs" by (simp add: remdups_id_iff_distinct)
  then have "length (remdups vs) \<noteq> length vs" by (simp add: length_remdups_eq)
  with assms(1,2) show ?thesis
    by (cases vs) (simp_all add: ValidatedLetters_call_def Let_def duplicate_error_def)
qed

lemma convert_all_valid:
  "list_all validate_char vs \<Longrightarrow> convert_all vs = Inr (map py_lower vs)"
  by (induction vs) (simp_all add: check_letter_def)

lemma convert_all_invalid:
  "\<not> list_all validate_char vs \<Longrightarrow> \<exists>e. convert_all vs = Inl e"
  by (induction vs) (auto simp: check_letter_def split: sum.splits)

lemma parseable_simps:
  "parseable (Center v) = validate_char v"
  "parseable (Letters vs) = (vs \<noteq> [] \<and> list_all validate_char vs)"
  by (simp_all add: parseable_def)

lemma bad_letters_simps:
  "bad_letters (Center v) = False"
  "bad_letters (Letters vs) = (6 < length vs \<or> \<not> distinct (map py_lower vs))"
  by (simp_all add: bad_letters_def)

text \<open>Options that pass every check only change the namespace.\<close>

lemma parse_args_prefix:
  "list_all parseable pre \<Longrightarrow> \<not> list_ex bad_letters pre \<Longrightarrow>
   \<exists>ns'. parse_args (pre @ rest) ns = parse_args rest ns'"
proof (induction pre arbitrary: ns)
  case Nil
  show ?case by auto
next
  case (Cons opt pre)
  from Cons.prems have pre: "list_all parseable pre" "\<not> list_ex bad_letters pre" by simp_all
  show ?case
  proof (cases opt)
    case (Center v)
    with Cons.prems have "check_letter v = Inr (py_lower v)"
      by (simp add: parseable_simps check_letter_def)
    with Center Cons.IH [OF pre] show ?thesis by simp
  next
    case (Letters vs)
    with Cons.prems have vs: "vs \<noteq> []" "list_all validate_char vs"
      and good: "length (map py_lower vs) \<le> 6" "distinct (map py_lower vs)"
      by (simp_all add: parseable_simps bad_letters_simps)
    have conv: "convert_all vs = Inr (map py_lower vs)" using vs(2) by (rule convert_all_valid)
    have "ValidatedLetters_call (map py_lower vs) = ([], Inr (map py_lower vs))"
      using vs(1) good by (intro ValidatedLetters_call_good) simp_all
    with Letters vs(1) conv Cons.IH [OF pre] show ?thesis by simp
  qed
qed

lemma parse_args_count:
  assumes "parseable (Letters vs)" and "6 < length vs"
  shows "parse_args (Letters vs # post) ns = ([count_error], Inl (SystemExit 1))"
proof -
  from assms(1) have vs: "vs \<noteq> []" "list_all validate_char vs" by (simp_all add: parseable_simps)
  have conv: "convert_all vs = Inr (map py_lower vs)" using vs(2) by (rule convert_all_valid)
  have "ValidatedLetters_call (map py_lower vs) = ([count_error], Inl (SystemExit 1))"
    using assms(2) by (intro ValidatedLetters_call_count) simp
  with vs(1) conv show ?thesis by simp
qed

lemma parse_args_duplicate:
  assumes "parseable (Letters vs)" and "length vs \<le> 6" and "\<not> distinct (map py_lower vs)"
  shows "parse_args (Letters vs # post) ns = ([duplicate_error], Inl (SystemExit 1))"
proof -
  from assms(1) have vs: "vs \<noteq> []" "list_all validate_char vs" by (simp_all add: parseable_simps)
  have conv: "convert_all vs = Inr (map py_lower vs)" using vs(2) by (rule convert_all_valid)
  have "ValidatedLetters_call (map py_lower vs) = ([duplicate_error], Inl (SystemExit 1))"
    using vs(1) assms(2,3) by (intro ValidatedLetters_call_duplicate) simp_all
  with vs(1) conv show ?thesis by simp
qed

lemma parse_args_unparseable:
  assumes "\<not> parseable opt"
  shows "parse_args (opt # post) ns = ([], Inl (SystemExit 2))"
proof (cases opt)
  case (Center v)
  with assms show ?thesis by (simp add: parseable_simps check_letter_def)
next
  case (Letters vs)
  show ?thesis
  proof (cases "vs = []")
    case True
    with Letters show ?thesis by simp
  next
    case False
    with assms Letters have "\<not> list_all validate_char vs" by (simp add: parseable_simps)
    then obtain e where "convert_all vs = Inl e" using convert_all_invalid by blast
    with False Letters show ?thesis by simp
  qed
qed


lemma get_args_exit:
  "parse_args argv \<lparr>ns_center = None, ns_letters = None\<rparr> = (out, Inl e) \<Longrightarrow>
   get_args argv = (out, Inl e)"
  by (simp add: get_args_def)


lemma main_exit:
  "get_args argv = (out, Inl e) \<Longrightarrow> main it argv inputs file = (map Printed out, Inl e)"
  by (simp add: main_def)

lemma program_exit:
  "get_args argv = (out, Inl (SystemExit n)) \<Longrightarrow>
   program it argv inputs file = (map Printed out, n)"
  by (simp add: program_def main_exit)

lemma get_args_contain:
  assumes "validate_char c" and "parseable (Letters ls)" and "\<not> bad_letters (Letters ls)"
    and "py_lower c \<in> set (map py_lower ls)"
  shows "get_args [Center c, Letters ls] = ([contain_error], Inl (SystemExit 1))"
    and "get_args [Letters ls, Center c] = ([contain_error], Inl (SystemExit 1))"
proof -
  from assms(2) have ls: "ls \<noteq> []" "list_all validate_char ls" by (simp_all add: parseable_simps)
  from assms(3) have "length (map py_lower ls) \<le> 6" "distinct (map py_lower ls)"
    by (simp_all add: bad_letters_simps)
  with ls(1) have vl: "ValidatedLetters_call (map py_lower ls) = ([], Inr (map py_lower ls))"
    by (intro ValidatedLetters_call_good) simp_all
  have conv: "convert_all ls = Inr (map py_lower ls)" using ls(2) by (rule convert_all_valid)
  have chk: "check_letter c = Inr (py_lower c)" using assms(1) by (simp add: check_letter_def)
  from assms(1) have "py_lower c \<noteq> []" by (auto simp: validate_char_def py_lower_def)
  with assms(4) ls(1)
  have vc: "validate_contain (Some (py_lower c)) (Some (map py_lower ls)) =
            ([contain_error], Inl (SystemExit 1))"
    by (simp add: validate_contain_def contain_error_def)
  show "get_args [Center c, Letters ls] = ([contain_error], Inl (SystemExit 1))"
    by (simp add: get_args_def ls(1) conv chk vl vc)
  show "get_args [Letters ls, Center c] = ([contain_error], Inl (SystemExit 1))"
    by (simp add: get_args_def ls(1) conv chk vl vc)
qed

text \<open>
  C7 (amended). Take a command line in which the options before some option pass every
  check (every argument a single letter, \<open>-l\<close> with one to six letters that differ after
  lowercasing). If that option is an \<open>-l\<close> whose arguments are single letters and it has
  more than six of them, the program prints the message about the number of outer
  letters, shows nothing else and exits with status 1; if it has at most six and
  repeats a letter (compared in lowercase), the program prints the message about
  duplicates, shows nothing else and exits with status 1; if that option is not accepted
  by argparse (an argument that is not a single letter, or \<open>-l\<close> without arguments),
  nothing is shown on standard output and the exit status is 2. If \<open>-c\<close> and an \<open>-l\<close> that
  passes every check are both given, in either order, and the center (lowercased) is
  among the outer letters (lowercased), the program prints the message about the center
  letter, shows nothing else and exits with status 1.
\<close>

theorem command_line_errors:
  "(list_all parseable pre \<and> \<not> list_ex bad_letters pre \<longrightarrow>
      (parseable (Letters vs) \<and> 6 < length vs \<longrightarrow>
         program it (pre @ Letters vs # post) inputs file = ([Printed count_error], 1)) \<and>
      (parseable (Letters ws) \<and> length ws \<le> 6 \<and> \<not> distinct (map py_lower ws) \<longrightarrow>
         program it (pre @ Letters ws # post) inputs file = ([Printed duplicate_error], 1)) \<and>
      (\<not> parseable opt \<longrightarrow> program it (pre @ opt # post) inputs file = ([], 2))) \<and>
   (validate_char c \<and> parseable (Letters ls) \<and> \<not> bad_letters (Letters ls) \<and>
    py_lower c \<in> set (map py_lower ls) \<longrightarrow>
      program it [Center c, Letters ls] inputs file = ([Printed contain_error], 1) \<and>
      program it [Letters ls, Center c] inputs file = ([Printed contain_error], 1))"
proof (intro conjI impI)
  assume pre: "list_all parseable pre \<and> \<not> list_ex bad_letters pre"
    and vs: "parseable (Letters vs) \<and> 6 < length vs"
  from pre obtain ns where
    "parse_args (pre @ Letters vs # post) \<lparr>ns_center = None, ns_letters = None\<rparr> =
     parse_args (Letters vs # post) ns"
    using parse_args_prefix by blast
  moreover have "parse_args (Letters vs # post) ns = ([count_error], Inl (SystemExit 1))"
    using vs by (intro parse_args_count) simp_all
  ultimately have "get_args (pre @ Letters vs # post) = ([count_error], Inl (SystemExit 1))"
    by (intro get_args_exit) (simp only:)
  then show "program it (pre @ Letters vs # post) inputs file = ([Printed count_error], 1)"
    by (simp add: program_exit)
next
  assume pre: "list_all parseable pre \<and> \<not> list_ex bad_letters pre"
    and ws: "parseable (Letters ws) \<and> length ws \<le> 6 \<and> \<not> distinct (map py_lower ws)"
  from pre obtain ns where
    "parse_args (pre @ Letters ws # post) \<lparr>ns_center = None, ns_letters = None\<rparr> =
     parse_args (Letters ws # post) ns"
    using parse_args_prefix by blast
  moreover have "parse_args (Letters ws # post) ns = ([duplicate_error], Inl (SystemExit 1))"
    using ws by (intro parse_args_duplicate) simp_all
  ultimately have "get_args (pre @ Letters ws # post) = ([duplicate_error], Inl (SystemExit 1))"
    by (intro get_args_exit) (simp only:)
  then show "program it (pre @ Letters ws # post) inputs file = ([Printed duplicate_error], 1)"
    by (simp add: program_exit)
next
  assume pre: "list_all parseable pre \<and> \<not> list_ex bad_letters pre"
    and opt: "\<not> parseable opt"
  from pre obtain ns where
    "parse_args (pre @ opt # post) \<lparr>ns_center = None, ns_letters = None\<rparr> =
     parse_args (opt # post) ns"
    using parse_args_prefix by blast
  moreover have "parse_args (opt # post) ns = ([], Inl (SystemExit 2))"
    using opt by (intro parse_args_unparseable) simp_all
  ultimately have "get_args (pre @ opt # post) = ([], Inl (SystemExit 2))"
    by (intro get_args_exit) (simp only:)
  then show "program it (pre @ opt # post) inputs file = ([], 2)"
    by (simp add: program_exit)
next
  assume b: "validate_char c \<and> parseable (Letters ls) \<and> \<not> bad_letters (Letters ls) \<and>
             py_lower c \<in> set (map py_lower ls)"
  then have "get_args [Center c, Letters ls] = ([contain_error], Inl (SystemExit 1))"
    by (intro get_args_contain) simp_all
  then show "program it [Center c, Letters ls] inputs file = ([Printed contain_error], 1)"
    by (simp add: program_exit)
  from b have "get_args [Letters ls, Center c] = ([contain_error], Inl (SystemExit 1))"
    by (intro get_args_contain) simp_all
  then show "program it [Letters ls, Center c] inputs file = ([Printed contain_error], 1)"
    by (simp add: program_exit)
qed

text \<open>
  The theorem on the command lines \<open>-c g -l a b c d e f h -l x\<close> (seven letters),
  \<open>-c g -l o D d -l x\<close> (a repeated letter), \<open>-c g -l o 1 -l x\<close> (not a letter) and
  \<open>-c G -l o g\<close>, \<open>-l o g -c G\<close> (the center among the outer letters), with a word file
  present.
\<close>

theorem command_line_errors_witness:
  "list_all parseable [Center ''g''] \<and> \<not> list_ex bad_letters [Center ''g''] \<and>
   parseable (Letters [''a'', ''b'', ''c'', ''d'', ''e'', ''f'', ''h'']) \<and>
   6 < length [''a'', ''b'', ''c'', ''d'', ''e'', ''f'', ''h''] \<and>
   program id ([Center ''g''] @ Letters [''a'', ''b'', ''c'', ''d'', ''e'', ''f'', ''h''] #
                [Letters [''x'']]) [] (Some []) =
     ([Printed ''Error: argument -l/--letters: Outer letters can have between one and six entries.''],
      1) \<and>
   parseable (Letters [''o'', ''D'', ''d'']) \<and> length [''o'', ''D'', ''d''] \<le> 6 \<and>
   \<not> distinct (map py_lower [''o'', ''D'', ''d'']) \<and>
   program id ([Center ''g''] @ Letters [''o'', ''D'', ''d''] # [Letters [''x'']]) [] (Some []) =
     ([Printed ''Error: argument -l/--letters: Outer letters cannot contain duplicates''], 1) \<and>
   \<not> parseable (Letters [''o'', ''1'']) \<and>
   program id ([Center ''g''] @ Letters [''o'', ''1''] # [Letters [''x'']]) [] (Some []) = ([], 2) \<and>
   validate_char ''G'' \<and> parseable (Letters [''o'', ''g'']) \<and>
   \<not> bad_letters (Letters [''o'', ''g'']) \<and> py_lower ''G'' \<in> set (map py_lower [''o'', ''g'']) \<and>
   program id [Center ''G'', Letters [''o'', ''g'']] [] (Some []) =
     ([Printed ''Error: Center letter cannot be contained in outer letters.''], 1) \<and>
   program id [Letters [''o'', ''g''], Center ''G''] [] (Some []) =
     ([Printed ''Error: Center letter cannot be contained in outer letters.''], 1)"
proof -
  have h1: "list_all parseable [Center ''g''] \<and> \<not> list_ex bad_letters [Center ''g'']"
    by code_simp
  have h2: "parseable (Letters [''a'', ''b'', ''c'', ''d'', ''e'', ''f'', ''h'']) \<and>
            6 < length [''a'', ''b'', ''c'', ''d'', ''e'', ''f'', ''h'']"
    by code_simp
  have h3: "parseable (Letters [''o'', ''D'', ''d'']) \<and> length [''o'', ''D'', ''d''] \<le> 6 \<and>
            \<not> distinct (map py_lower [''o'', ''D'', ''d''])"
    by code_simp
  have h4: "\<not> parseable (Letters [''o'', ''1''])" by code_simp
  have h5: "validate_char ''G'' \<and> parseable (Letters [''o'', ''g'']) \<and>
            \<not> bad_letters (Letters [''o'', ''g'']) \<and>
            py_lower ''G'' \<in> set (map py_lower [''o'', ''g''])"
    by code_simp
  from command_line_errors [of "[Center ''g'']" "[''a'', ''b'', ''c'', ''d'', ''e'', ''f'', ''h'']"
      id "[Letters [''x'']]" "[]" "Some []" "[''o'', ''D'', ''d'']" "Letters [''o'', ''1'']"
      "''G''" "[''o'', ''g'']"] h1 h2 h3 h4 h5
  show ?thesis unfolding count_error_def duplicate_error_def contain_error_def by blast
qed

text \<open>
  C7 as stated fails for an entry that is not a single letter: for \<open>-l ab\<close> (and for \<open>-l\<close>
  with no argument) the program exits with status 2, not 1.
\<close>

theorem invalid_letter_exits_with_2:
  "\<not> validate_char ''ab'' \<and>
   program id [Letters [''ab'']] [] (Some []) = ([], 2) \<and>
   program id [Letters []] [] (Some []) = ([], 2) \<and>
   snd (program id [Letters [''ab'']] [] (Some [])) \<noteq> 1"
  by code_simp

section \<open>The missing word file\<close>










end
